theory Spec2Isabelle
  imports Main "HOL-Library.AList" "HOL-Library.Multiset"
    "HOL-Library.List_Lexorder" "HOL-Library.Product_Lexorder"
begin

section \<open>Python strings and paths\<close>

text \<open>
  A Python \<open>str\<close> is a sequence of Unicode code points; it is modelled as a list of
  natural numbers, one per code point.  \<open>py ''abc''\<close> is the literal \<open>"abc"\<close>.
  Strings are compared as Python compares them, lexicographically by code point.
\<close>

type_synonym pystr = "nat list"

abbreviation py :: "string \<Rightarrow> pystr" where
  "py s \<equiv> map of_char s"

text \<open>\<open>str.isspace\<close> for one code point: the characters \<open>str.strip()\<close> removes.\<close>

definition is_space :: "nat \<Rightarrow> bool" where
  "is_space c \<longleftrightarrow>
     (9 \<le> c \<and> c \<le> 13) \<or> (28 \<le> c \<and> c \<le> 32) \<or> c = 133 \<or> c = 160 \<or> c = 5760 \<or>
     (8192 \<le> c \<and> c \<le> 8202) \<or> c = 8232 \<or> c = 8233 \<or> c = 8239 \<or> c = 8287 \<or> c = 12288"

definition strip :: "pystr \<Rightarrow> pystr" where
  "strip s = rev (dropWhile is_space (rev (dropWhile is_space s)))"

text \<open>\<open>sep.join(xs)\<close>.\<close>

fun join :: "pystr \<Rightarrow> pystr list \<Rightarrow> pystr" where
  "join sep [] = []"
| "join sep [x] = x"
| "join sep (x # y # ys) = x @ sep @ join sep (y # ys)"

text \<open>\<open>s.split(c)\<close> for a one-character separator: \<open>"".split(",")\<close> is \<open>[""]\<close>.\<close>

fun split :: "nat \<Rightarrow> pystr \<Rightarrow> pystr list" where
  "split c [] = [[]]"
| "split c (x # xs) =
     (if x = c then [] # split c xs
      else (case split c xs of [] \<Rightarrow> [[x]] | y # ys \<Rightarrow> (x # y) # ys))"

text \<open>\<open>str(n)\<close> for a non-negative integer: its decimal digits.\<close>

fun str_nat :: "nat \<Rightarrow> pystr" where
  "str_nat n = (if n < 10 then [48 + n] else str_nat (n div 10) @ [48 + n mod 10])"

declare str_nat.simps [simp del]

text \<open>
  The functions of \<open>os.path\<close> in their POSIX form (\<open>posixpath\<close>): the separator is
  \<open>/\<close> (47) and the extension separator is \<open>.\<close> (46).  \<open>rsplit_at c p\<close> cuts \<open>p\<close>
  after the last \<open>c\<close>: the first part ends with that \<open>c\<close> (it is empty when there is
  none), the second part is what follows.
\<close>

definition rsplit_at :: "nat \<Rightarrow> pystr \<Rightarrow> pystr \<times> pystr" where
  "rsplit_at c p =
     (rev (dropWhile (\<lambda>x. x \<noteq> c) (rev p)), rev (takeWhile (\<lambda>x. x \<noteq> c) (rev p)))"

definition basename :: "pystr \<Rightarrow> pystr" where
  "basename p = snd (rsplit_at 47 p)"

text \<open>
  \<open>splitext\<close>: the extension starts at the last dot of the last path component, unless
  only dots come before it in that component (leading dots do not start an extension).
\<close>

definition splitext :: "pystr \<Rightarrow> pystr \<times> pystr" where
  "splitext p =
     (let (dir, fname) = rsplit_at 47 p;
          (r, e) = rsplit_at 46 fname
      in if 46 \<in> set fname \<and> list_ex (\<lambda>x. x \<noteq> 46) (butlast r)
         then (dir @ butlast r, 46 # e)
         else (p, []))"

definition path_join :: "pystr \<Rightarrow> pystr \<Rightarrow> pystr" where
  "path_join a b =
     (if b \<noteq> [] \<and> hd b = 47 then b
      else if a = [] \<or> last a = 47 then a @ b
      else a @ [47] @ b)"

section \<open>The session state\<close>

text \<open>
  The data fields of \<open>DatCureApp\<close>, together with the part of the world its methods
  read and write:
  \<^item> \<open>captions\<close> is a Python dict; it is an association list in insertion order
    (\<open>AList.update\<close> replaces the value of a present key in place and appends a new key,
    \<open>AList.delete\<close> removes a key).
  \<^item> \<open>tag_frequency\<close> is a \<open>defaultdict(int)\<close>: reading a missing key with
    \<open>tag_frequency[t]\<close> stores the entry \<open>0\<close> for it.
  \<^item> \<open>selected_images\<close> is a Python set; it is the list of its elements in iteration
    order, without repetitions.
  \<^item> \<open>disk\<close> holds the files that exist, with their text content; \<open>locked\<close> holds the
    paths on which opening for writing, copying or moving raises an exception.
\<close>

datatype mode = Inclusive | Exclusive

record app =
  images :: "pystr list"
  captions :: "(pystr \<times> pystr list) list"
  tag_frequency :: "pystr \<rightharpoonup> int"
  selected_images :: "pystr list"
  all_tags :: "pystr set"
  filtered_images :: "pystr list"
  filter_active :: bool
  filter_mode :: mode
  focus_image_path :: "pystr option"
  include_subdirs_checkbox :: bool
  disk :: "(pystr \<times> pystr) list"
  locked :: "pystr set"

text \<open>\<open>self.captions.get(image_path, [])\<close>.\<close>

definition captions_get :: "app \<Rightarrow> pystr \<Rightarrow> pystr list" where
  "captions_get s image_path =
     (case map_of (captions s) image_path of None \<Rightarrow> [] | Some tags \<Rightarrow> tags)"

text \<open>\<open>self.tag_frequency.get(t, 0)\<close>, which stores nothing.\<close>

definition freq_get :: "app \<Rightarrow> pystr \<Rightarrow> int" where
  "freq_get s t = (case tag_frequency s t of None \<Rightarrow> 0 | Some c \<Rightarrow> c)"

text \<open>The state change of reading \<open>self.tag_frequency[t]\<close>.\<close>

definition freq_touch :: "pystr \<Rightarrow> app \<Rightarrow> app" where
  "freq_touch t s =
     (case tag_frequency s t of
        None \<Rightarrow> s\<lparr>tag_frequency := (tag_frequency s)(t \<mapsto> 0)\<rparr>
      | Some c \<Rightarrow> s)"

definition save_caption_file :: "pystr \<Rightarrow> app \<Rightarrow> app" where
  "save_caption_file image_path s =
     (let tags = captions_get s image_path;
          caption_path = fst (splitext image_path) @ py ''.txt''
      in if caption_path \<in> locked s then s
         else s\<lparr>disk := AList.update caption_path (join (py '', '') tags) (disk s)\<rparr>)"

text \<open>
  \<open>update_focus_window\<close> and \<open>update_tag_list\<close> redraw widgets.  Their effect on the
  data is that the first records the focused image and the second reads
  \<open>self.tag_frequency[tag]\<close> for every tag of \<open>all_tags\<close>.
\<close>

definition update_focus_window :: "pystr \<Rightarrow> app \<Rightarrow> app" where
  "update_focus_window image_path s = s\<lparr>focus_image_path := Some image_path\<rparr>"

definition update_tag_list :: "app \<Rightarrow> app" where
  "update_tag_list s =
     s\<lparr>tag_frequency :=
         (\<lambda>t. if t \<in> all_tags s \<and> tag_frequency s t = None then Some 0
              else tag_frequency s t)\<rparr>"

section \<open>Tag editing\<close>

text \<open>The body of the loop of \<open>add_tag_to_selected\<close>, for one image.\<close>

definition add_tag_image :: "pystr \<Rightarrow> pystr \<Rightarrow> app \<Rightarrow> app" where
  "add_tag_image new_tag image_path s =
     (if new_tag \<notin> set (captions_get s image_path) then
        save_caption_file image_path
          (s\<lparr>captions :=
               AList.update image_path (captions_get s image_path @ [new_tag]) (captions s),
             tag_frequency := (tag_frequency s)(new_tag \<mapsto> freq_get s new_tag + 1),
             all_tags := insert new_tag (all_tags s)\<rparr>)
      else s)"

definition add_tag_to_selected :: "pystr \<Rightarrow> app \<Rightarrow> app" where
  "add_tag_to_selected text s =
     (let new_tag = strip text
      in if new_tag \<noteq> [] \<and> selected_images s \<noteq> [] then
           update_tag_list
             (update_focus_window (hd (selected_images s))
               (fold (add_tag_image new_tag) (selected_images s) s))
         else s)"

text \<open>The body of the loop of \<open>remove_tag_from_selected\<close>, for one image.\<close>

definition remove_tag_image :: "pystr \<Rightarrow> pystr \<Rightarrow> app \<Rightarrow> app" where
  "remove_tag_image tag_to_remove image_path s =
     (if tag_to_remove \<in> set (captions_get s image_path) then
        (let s1 = s\<lparr>captions :=
                      AList.update image_path
                        (remove1 tag_to_remove (captions_get s image_path)) (captions s)\<rparr>;
             s2 = freq_touch tag_to_remove s1;
             s3 = (if freq_get s2 tag_to_remove > 0 then
                     (if freq_get s2 tag_to_remove - 1 = 0 then
                        s2\<lparr>tag_frequency := (tag_frequency s2)(tag_to_remove := None),
                           all_tags := all_tags s2 - {tag_to_remove}\<rparr>
                      else
                        s2\<lparr>tag_frequency :=
                             (tag_frequency s2)(tag_to_remove \<mapsto> freq_get s2 tag_to_remove - 1)\<rparr>)
                   else s2)
         in save_caption_file image_path s3)
      else s)"

definition remove_tag_from_selected :: "pystr \<Rightarrow> app \<Rightarrow> app" where
  "remove_tag_from_selected text s =
     (let tag_to_remove = strip text
      in if tag_to_remove \<noteq> [] \<and> selected_images s \<noteq> [] then
           update_tag_list
             (update_focus_window (hd (selected_images s))
               (fold (remove_tag_image tag_to_remove) (selected_images s) s))
         else s)"

section \<open>Gallery and selection\<close>

text \<open>
  The image sequence the gallery shows and the selection buttons work on: the filtered
  view while a filter is active, the full catalog otherwise.
\<close>

definition active_view :: "app \<Rightarrow> pystr list" where
  "active_view s = (if filter_active s then filtered_images s else images s)"

text \<open>
  \<open>populate_gallery\<close> rebuilds the thumbnails of the images it is given; on the data it
  only calls \<open>update_tag_list\<close>.
\<close>

definition populate_gallery :: "pystr list \<Rightarrow> app \<Rightarrow> app" where
  "populate_gallery shown s = update_tag_list s"

definition update_gallery :: "app \<Rightarrow> app" where
  "update_gallery s =
     (if filter_active s then populate_gallery (filtered_images s) s
      else populate_gallery (images s) s)"

definition image_clicked :: "pystr \<Rightarrow> app \<Rightarrow> app" where
  "image_clicked image_path s =
     update_focus_window image_path
       (if image_path \<in> set (selected_images s)
        then s\<lparr>selected_images := removeAll image_path (selected_images s)\<rparr>
        else s\<lparr>selected_images := selected_images s @ [image_path]\<rparr>)"

definition select_all_images :: "app \<Rightarrow> app" where
  "select_all_images s =
     update_gallery
       (if filter_active s then s\<lparr>selected_images := remdups (filtered_images s)\<rparr>
        else s\<lparr>selected_images := remdups (images s)\<rparr>)"

definition deselect_all_images :: "app \<Rightarrow> app" where
  "deselect_all_images s = update_gallery (s\<lparr>selected_images := []\<rparr>)"

text \<open>\<open>a.symmetric_difference(b)\<close> on sets given as lists without repetitions.\<close>

definition symmetric_difference :: "pystr list \<Rightarrow> pystr list \<Rightarrow> pystr list" where
  "symmetric_difference a b = filter (\<lambda>x. x \<notin> set b) a @ filter (\<lambda>x. x \<notin> set a) b"

definition invert_selection :: "app \<Rightarrow> app" where
  "invert_selection s =
     (let current_set = (if filter_active s then remdups (filtered_images s)
                         else remdups (images s))
      in update_gallery
           (s\<lparr>selected_images := symmetric_difference current_set (selected_images s)\<rparr>))"

section \<open>Sequences of user actions on tags and selection\<close>

datatype event = AddTag pystr | RemoveTag pystr | Click pystr
  | SelectAll | DeselectAll | InvertSelection

fun step :: "event \<Rightarrow> app \<Rightarrow> app" where
  "step (AddTag text) s = add_tag_to_selected text s"
| "step (RemoveTag text) s = remove_tag_from_selected text s"
| "step (Click image_path) s = image_clicked image_path s"
| "step SelectAll s = select_all_images s"
| "step DeselectAll s = deselect_all_images s"
| "step InvertSelection s = invert_selection s"

definition run :: "event list \<Rightarrow> app \<Rightarrow> app" where
  "run evs s = fold step evs s"

section \<open>The tag index and its consistency\<close>

text \<open>
  \<open>tag_count s t\<close> is the number of images whose caption contains \<open>t\<close>: the entries of
  the \<open>captions\<close> dict whose tag list has \<open>t\<close>.
\<close>

definition count_images :: "pystr \<Rightarrow> (pystr \<times> pystr list) list \<Rightarrow> nat" where
  "count_images t caps = length (filter (\<lambda>(p, tags). t \<in> set tags) caps)"

definition tag_count :: "app \<Rightarrow> pystr \<Rightarrow> nat" where
  "tag_count s t = count_images t (captions s)"

text \<open>
  A consistent tag index: the dict has each key once, no caption repeats a tag, the
  frequency of a tag is the number of images carrying it with no entry for a tag that no
  image carries, and \<open>all_tags\<close> holds exactly the keys of the frequency map.
\<close>

definition freq_ok :: "app \<Rightarrow> bool" where
  "freq_ok s \<longleftrightarrow>
     distinct (map fst (captions s)) \<and>
     list_all (\<lambda>(p, tags). distinct tags) (captions s) \<and>
     (\<forall>t. tag_frequency s t =
        (if tag_count s t = 0 then None else Some (int (tag_count s t))))"

definition tag_index_ok :: "app \<Rightarrow> bool" where
  "tag_index_ok s \<longleftrightarrow> freq_ok s \<and> all_tags s = dom (tag_frequency s)"


definition catalog_ok :: "app \<Rightarrow> bool" where
  "catalog_ok s \<longleftrightarrow>
     distinct (images s) \<and> set (images s) = fst ` set (captions s) \<and>
     set (selected_images s) \<subseteq> set (images s) \<and>
     set (filtered_images s) \<subseteq> set (images s)"


section \<open>Filtering\<close>

text \<open>
  \<open>selected_tags\<close> is the list the first loop of \<open>filter_images\<close> and of
  \<open>ignore_tags\<close> builds from the items selected in the tag list widget (the tag of each
  item, its count cut off); it is empty exactly when no item is selected.
\<close>

definition filter_images :: "pystr list \<Rightarrow> app \<Rightarrow> app" where
  "filter_images selected_tags s =
     (if selected_tags = [] then s
      else
        (let matches = (\<lambda>image_path.
               (let image_tags = captions_get s image_path
                in if filter_mode s = Inclusive
                   then list_ex (\<lambda>tag. tag \<in> set image_tags) selected_tags
                   else list_all (\<lambda>tag. tag \<in> set image_tags) selected_tags));
             s1 = s\<lparr>filtered_images := filter matches (images s), filter_active := True\<rparr>
         in populate_gallery (filtered_images s1) s1))"

definition ignore_tags :: "pystr list \<Rightarrow> app \<Rightarrow> app" where
  "ignore_tags selected_tags s =
     (if selected_tags = [] then s
      else
        (let matches = (\<lambda>image_path.
               (let image_tags = captions_get s image_path
                in \<not> list_ex (\<lambda>tag. tag \<in> set image_tags) selected_tags));
             s1 = s\<lparr>filtered_images := filter matches (images s), filter_active := True\<rparr>
         in populate_gallery (filtered_images s1) s1))"

definition clear_filter :: "app \<Rightarrow> app" where
  "clear_filter s =
     (let s1 = s\<lparr>filter_active := False, filtered_images := []\<rparr>
      in populate_gallery (images s1) s1)"

definition toggle_filter_mode :: "bool \<Rightarrow> app \<Rightarrow> app" where
  "toggle_filter_mode checked s =
     (if checked then s\<lparr>filter_mode := Exclusive\<rparr> else s\<lparr>filter_mode := Inclusive\<rparr>)"

section \<open>Copying and moving the selection\<close>

text \<open>\<open>os.path.exists\<close>, and \<open>shutil.copy2\<close> and \<open>shutil.move\<close> with \<open>None\<close> for a raised
  exception: the source is missing, or one of the two paths is locked.\<close>

definition path_exists :: "app \<Rightarrow> pystr \<Rightarrow> bool" where
  "path_exists s p \<longleftrightarrow> map_of (disk s) p \<noteq> None"


definition shutil_move :: "pystr \<Rightarrow> pystr \<Rightarrow> app \<Rightarrow> app option" where
  "shutil_move src dst s =
     (case map_of (disk s) src of
        None \<Rightarrow> None
      | Some content \<Rightarrow>
          if src \<in> locked s \<or> dst \<in> locked s then None
          else Some (s\<lparr>disk := AList.update dst content (AList.delete src (disk s))\<rparr>))"

text \<open>The name \<open>f"{root}_{i}{ext}"\<close>.\<close>

definition numbered_name :: "pystr \<Rightarrow> nat \<Rightarrow> pystr \<Rightarrow> pystr" where
  "numbered_name root i ext = root @ py ''_'' @ str_nat i @ ext"

text \<open>Decimal digits determine the number, so the numbered names are all different.\<close>

lemma str_nat_value: "foldl (\<lambda>a c. 10 * a + (c - 48)) 0 (str_nat n) = n"
  by (induction n rule: str_nat.induct) (subst str_nat.simps, simp)

lemma str_nat_inj: "str_nat m = str_nat n \<Longrightarrow> m = n"
  by (metis str_nat_value)

lemma numbered_path_form:
  "\<exists>pre. \<forall>i. path_join dest_dir (numbered_name root i ext) = pre @ numbered_name root i ext"
proof -
  have ne: "numbered_name root i ext \<noteq> []" for i
    by (simp add: numbered_name_def)
  have h: "hd (numbered_name root i ext) = hd (root @ [95])" for i
    by (cases root) (simp_all add: numbered_name_def)
  show ?thesis
  proof (cases "hd (root @ [95]) = 47")
    case True
    then have "\<forall>i. path_join dest_dir (numbered_name root i ext) = [] @ numbered_name root i ext"
      using ne h by (simp add: path_join_def)
    then show ?thesis by blast
  next
    case False
    then have "\<forall>i. path_join dest_dir (numbered_name root i ext) =
        (if dest_dir = [] \<or> last dest_dir = 47 then dest_dir else dest_dir @ [47])
          @ numbered_name root i ext"
      using h by (simp add: path_join_def)
    then show ?thesis by blast
  qed
qed

lemma numbered_path_inj:
  assumes "path_join dest_dir (numbered_name root i ext)
    = path_join dest_dir (numbered_name root j ext)"
  shows "i = j"
proof -
  obtain pre where "\<And>k. path_join dest_dir (numbered_name root k ext)
      = pre @ numbered_name root k ext"
    using numbered_path_form by blast
  with assms have "numbered_name root i ext = numbered_name root j ext" by simp
  then have "str_nat i = str_nat j" by (simp add: numbered_name_def)
  then show ?thesis by (rule str_nat_inj)
qed

text \<open>
  The loop \<open>while os.path.exists(os.path.join(dest_dir, new_name)): i += 1\<close>: the first
  counter from \<open>i\<close> on whose numbered name is free.  It ends because the disk holds
  finitely many files.
\<close>

function free_counter :: "(pystr \<times> pystr) list \<Rightarrow> pystr \<Rightarrow> pystr \<Rightarrow> pystr \<Rightarrow> nat \<Rightarrow> nat" where
  "free_counter files dest_dir root ext i =
     (if map_of files (path_join dest_dir (numbered_name root i ext)) \<noteq> None
      then free_counter files dest_dir root ext (i + 1)
      else i)"
  by pat_completeness auto

termination
proof (relation "measure (\<lambda>(files, dest_dir, root, ext, i).
    card {j. i \<le> j \<and> path_join dest_dir (numbered_name root j ext) \<in> fst ` set files})")
  show "wf (measure (\<lambda>(files, dest_dir, root, ext, i).
    card {j. i \<le> j \<and> path_join dest_dir (numbered_name root j ext) \<in> fst ` set files}))"
    by simp
next
  fix files :: "(pystr \<times> pystr) list" and dest_dir root ext :: pystr and i :: nat
  let ?name = "\<lambda>j. path_join dest_dir (numbered_name root j ext)"
  assume "map_of files (?name i) \<noteq> None"
  then have here: "?name i \<in> fst ` set files"
    by (auto simp: map_of_eq_None_iff)
  have "inj ?name" by (rule injI) (rule numbered_path_inj)
  then have "finite (?name -` (fst ` set files))"
    by (intro finite_vimageI) simp_all
  then have fin: "finite {j. i \<le> j \<and> ?name j \<in> fst ` set files}"
    by (rule rev_finite_subset) auto
  have "i \<in> {j. i \<le> j \<and> ?name j \<in> fst ` set files}"
    "i \<notin> {j. i + 1 \<le> j \<and> ?name j \<in> fst ` set files}"
    "{j. i + 1 \<le> j \<and> ?name j \<in> fst ` set files}
      \<subseteq> {j. i \<le> j \<and> ?name j \<in> fst ` set files}"
    using here by auto
  then have "{j. i + 1 \<le> j \<and> ?name j \<in> fst ` set files}
      \<subset> {j. i \<le> j \<and> ?name j \<in> fst ` set files}"
    by blast
  then have "card {j. i + 1 \<le> j \<and> ?name j \<in> fst ` set files}
      < card {j. i \<le> j \<and> ?name j \<in> fst ` set files}"
    using fin by (rule psubset_card_mono [rotated])
  then show "((files, dest_dir, root, ext, i + 1), (files, dest_dir, root, ext, i))
      \<in> measure (\<lambda>(files, dest_dir, root, ext, i).
          card {j. i \<le> j \<and> path_join dest_dir (numbered_name root j ext) \<in> fst ` set files})"
    by simp
qed

declare free_counter.simps [simp del]

text \<open>
  The destination of an image: its base name in the destination directory, or the first
  free numbered name when that one is taken.  \<open>copy_selection\<close> and \<open>move_selection\<close>
  compute it with the same statements.
\<close>

definition dest_image_path :: "pystr \<Rightarrow> pystr \<Rightarrow> app \<Rightarrow> pystr" where
  "dest_image_path dest_dir image_path s =
     (let base_name = basename image_path
      in if path_exists s (path_join dest_dir base_name) then
           (let (root, ext) = splitext base_name;
                i = free_counter (disk s) dest_dir root ext 1
            in path_join dest_dir (numbered_name root i ext))
         else path_join dest_dir base_name)"

text \<open>The destination of the caption file, from the destination chosen for the image.\<close>

definition dest_caption_path :: "pystr \<Rightarrow> pystr \<Rightarrow> pystr" where
  "dest_caption_path dest_dir dest_image =
     (let dest_base_root = fst (splitext (basename dest_image))
      in path_join dest_dir (dest_base_root @ py ''.txt''))"



text \<open>
  The body of the first loop of \<open>move_selection\<close>, for one image, on the pair of
  \<open>images_to_remove\<close> and the session.
\<close>

definition move_image :: "pystr \<Rightarrow> pystr \<Rightarrow> pystr list \<times> app \<Rightarrow> pystr list \<times> app" where
  "move_image dest_dir image_path acc =
     (let (images_to_remove, s) = acc;
          dest = dest_image_path dest_dir image_path s
      in case shutil_move image_path dest s of
           None \<Rightarrow> (images_to_remove, s)
         | Some s1 \<Rightarrow>
             (let caption_src = fst (splitext image_path) @ py ''.txt'';
                  s2 = (if path_exists s1 caption_src then
                          (case shutil_move caption_src (dest_caption_path dest_dir dest) s1 of
                             None \<Rightarrow> s1
                           | Some s' \<Rightarrow> s')
                        else s1)
              in (images_to_remove @ [image_path], s2)))"

text \<open>The body of the innermost loop: one tag of a moved image leaves the frequency map.\<close>

definition drop_tag :: "pystr \<Rightarrow> app \<Rightarrow> app" where
  "drop_tag tag s =
     (let s1 = freq_touch tag s
      in if freq_get s1 tag > 0 then
           (if freq_get s1 tag - 1 = 0
            then s1\<lparr>tag_frequency := (tag_frequency s1)(tag := None)\<rparr>
            else s1\<lparr>tag_frequency := (tag_frequency s1)(tag \<mapsto> freq_get s1 tag - 1)\<rparr>)
         else s1)"

text \<open>The body of the second loop of \<open>move_selection\<close>, for one moved image.\<close>

definition forget_image :: "pystr \<Rightarrow> app \<Rightarrow> app" where
  "forget_image image_path s =
     (let s1 = (if image_path \<in> set (images s)
                then s\<lparr>images := remove1 image_path (images s)\<rparr> else s)
      in case map_of (captions s1) image_path of
           None \<Rightarrow> s1
         | Some tags \<Rightarrow>
             fold drop_tag tags (s1\<lparr>captions := AList.delete image_path (captions s1)\<rparr>))"

definition move_selection :: "pystr \<Rightarrow> app \<Rightarrow> app" where
  "move_selection dest_dir s =
     (if selected_images s = [] then s
      else if dest_dir = [] then s
      else
        (let (images_to_remove, s1) = fold (move_image dest_dir) (selected_images s) ([], s);
             s2 = fold forget_image images_to_remove s1;
             s3 = s2\<lparr>all_tags := dom (tag_frequency s2)\<rparr>;
             s4 = s3\<lparr>selected_images := []\<rparr>;
             s5 = update_tag_list s4;
             s6 = s5\<lparr>filter_active := False, filtered_images := []\<rparr>
         in populate_gallery (images s6) s6))"



section \<open>Loading a directory\<close>

text \<open>
  The caption parser of the loader:
  \<open>[tag.strip() for tag in f.read().split(",") if tag.strip()]\<close>.  The content of a file
  is the text \<open>f.read()\<close> returns, and is the text \<open>f.write\<close> was given.
\<close>

definition parse_caption :: "pystr \<Rightarrow> pystr list" where
  "parse_caption content = map strip (filter (\<lambda>tag. strip tag \<noteq> []) (split 44 content))"

definition read_caption_file :: "pystr \<Rightarrow> app \<Rightarrow> pystr list" where
  "read_caption_file image_path s =
     (let caption_path = fst (splitext image_path) @ py ''.txt''
      in case map_of (disk s) caption_path of
           Some content \<Rightarrow> parse_caption content
         | None \<Rightarrow> [])"

text \<open>
  \<open>file.lower().endswith(image_extensions)\<close>.  \<open>lower\<close> maps \<open>A\<close> to \<open>Z\<close> to \<open>a\<close> to
  \<open>z\<close>; the letters outside ASCII that Python lowers as well never produce the end of
  one of the five extensions.
\<close>

definition lower :: "pystr \<Rightarrow> pystr" where
  "lower s = map (\<lambda>c. if 65 \<le> c \<and> c \<le> 90 then c + 32 else c) s"

definition ends_with :: "pystr \<Rightarrow> pystr \<Rightarrow> bool" where
  "ends_with s e \<longleftrightarrow> length e \<le> length s \<and> drop (length s - length e) s = e"

definition image_extensions :: "pystr list" where
  "image_extensions = [py ''.png'', py ''.jpg'', py ''.jpeg'', py ''.bmp'', py ''.gif'']"

definition is_image_file :: "pystr \<Rightarrow> bool" where
  "is_image_file file = list_ex (ends_with (lower file)) image_extensions"

text \<open>
  What \<open>os.walk\<close> finds under a directory: the names of its files and its
  subdirectories, both in the order in which the operating system lists them.  \<open>walk\<close>
  yields the pairs \<open>(root, files)\<close> top-down, as \<open>os.walk\<close> does.
\<close>

datatype dir_tree = Dir (dir_files: "pystr list") (dir_subdirs: "(pystr \<times> dir_tree) list")

fun walk :: "pystr \<Rightarrow> dir_tree \<Rightarrow> (pystr \<times> pystr list) list" where
  "walk dir_path (Dir files subdirs) =
     (dir_path, files) #
       concat (map (\<lambda>(name, sub). walk (path_join dir_path name) sub) subdirs)"

definition load_images :: "app \<Rightarrow> app" where
  "load_images s =
     s\<lparr>images := [], captions := [], selected_images := [], all_tags := {},
       tag_frequency := Map.empty\<rparr>"

text \<open>The two statements of the innermost loop of \<open>load_images_thread\<close>, for one tag.\<close>

definition count_tag :: "pystr \<Rightarrow> app \<Rightarrow> app" where
  "count_tag tag s =
     s\<lparr>all_tags := insert tag (all_tags s),
       tag_frequency := (tag_frequency s)(tag \<mapsto> freq_get s tag + 1)\<rparr>"

text \<open>The body of the loop over the files of one directory, on the pair of
  \<open>loaded_images\<close> and the session.\<close>

definition load_file :: "pystr \<Rightarrow> pystr \<Rightarrow> pystr list \<times> app \<Rightarrow> pystr list \<times> app" where
  "load_file root file acc =
     (let (loaded_images, s) = acc
      in if is_image_file file then
           (let image_path = path_join root file;
                caption_path = fst (splitext image_path) @ py ''.txt''
            in (loaded_images @ [image_path],
                (if path_exists s caption_path then
                   (let tags = read_caption_file image_path s
                    in fold count_tag tags
                         (s\<lparr>captions := AList.update image_path tags (captions s)\<rparr>))
                 else s\<lparr>captions := AList.update image_path [] (captions s)\<rparr>)))
         else acc)"

text \<open>
  \<open>load_images_thread\<close> runs in the worker thread, on the application object itself.
  \<open>tree\<close> is what the walk finds under \<open>dir_path\<close>.
\<close>

definition load_images_thread :: "pystr \<Rightarrow> dir_tree \<Rightarrow> app \<Rightarrow> app" where
  "load_images_thread dir_path tree s =
     (let (loaded_images, s1) =
            fold (\<lambda>(root, files) acc. fold (load_file root) files acc)
              (walk dir_path tree) ([], s)
      in s1\<lparr>images := loaded_images\<rparr>)"

text \<open>
  A worker run to its end: \<open>load_images_thread\<close>, then the \<open>result\<close> signal, which
  is connected to \<open>populate_gallery\<close>.
\<close>

definition run_worker :: "pystr \<Rightarrow> dir_tree \<Rightarrow> app \<Rightarrow> app" where
  "run_worker dir_path tree s =
     (let s1 = load_images_thread dir_path tree s
      in populate_gallery (images s1) s1)"

text \<open>The image paths a scan collects: the image files of the walk, in walk order.\<close>

definition scan :: "pystr \<Rightarrow> dir_tree \<Rightarrow> pystr list" where
  "scan dir_path tree =
     concat (map (\<lambda>(root, files). map (path_join root) (filter is_image_file files))
       (walk dir_path tree))"

section \<open>Sorting the tags of the focused image\<close>

definition sort_tags_high :: "app \<Rightarrow> app" where
  "sort_tags_high s =
     (case focus_image_path s of
        None \<Rightarrow> s
      | Some p \<Rightarrow>
          (case map_of (captions s) p of
             None \<Rightarrow> s
           | Some tags \<Rightarrow>
               if p = [] then s
               else
                 (let sorted_tags = sort_key (\<lambda>t. (- freq_get s t, t)) tags;
                      s1 = s\<lparr>captions := AList.update p sorted_tags (captions s)\<rparr>
                  in update_focus_window p (save_caption_file p s1))))"

definition sort_tags_low :: "app \<Rightarrow> app" where
  "sort_tags_low s =
     (case focus_image_path s of
        None \<Rightarrow> s
      | Some p \<Rightarrow>
          (case map_of (captions s) p of
             None \<Rightarrow> s
           | Some tags \<Rightarrow>
               if p = [] then s
               else
                 (let sorted_tags = sort_key (\<lambda>t. (freq_get s t, t)) tags;
                      s1 = s\<lparr>captions := AList.update p sorted_tags (captions s)\<rparr>
                  in update_focus_window p (save_caption_file p s1))))"


text \<open>What holds while a load is under way: the tag index is consistent and the captions
  dict has an entry for exactly the images loaded so far.\<close>

definition loading_ok :: "pystr list \<times> app \<Rightarrow> bool" where
  "loading_ok acc \<longleftrightarrow> tag_index_ok (snd acc) \<and> fst ` set (captions (snd acc)) = set (fst acc)"

section \<open>Example sessions\<close>

text \<open>
  A session on the directory \<open>/d\<close> with two images: \<open>a.png\<close> carries the tag \<open>x\<close>,
  \<open>b.png\<close> has no caption file and is selected.
\<close>

definition session_ab :: app where
  "session_ab =
     \<lparr>images = [py ''/d/a.png'', py ''/d/b.png''],
      captions = [(py ''/d/a.png'', [py ''x'']), (py ''/d/b.png'', [])],
      tag_frequency = [py ''x'' \<mapsto> 1],
      selected_images = [py ''/d/b.png''],
      all_tags = {py ''x''},
      filtered_images = [],
      filter_active = False,
      filter_mode = Inclusive,
      focus_image_path = None,
      include_subdirs_checkbox = True,
      disk = [(py ''/d/a.png'', []), (py ''/d/a.txt'', py ''x''), (py ''/d/b.png'', [])],
      locked = {}\<rparr>"

text \<open>The same session after filtering on \<open>x\<close> and selecting the image shown.\<close>

definition session_filtered :: app where
  "session_filtered =
     session_ab\<lparr>filtered_images := [py ''/d/a.png''], filter_active := True,
       selected_images := [py ''/d/a.png'']\<rparr>"





text \<open>
  A session where the focused image \<open>a.png\<close> carries \<open>b\<close>, \<open>a\<close> and \<open>c\<close>, and a
  second image carries \<open>c\<close> as well: \<open>a\<close> and \<open>b\<close> have frequency 1, \<open>c\<close> has 2.
\<close>

definition session_sort :: app where
  "session_sort =
     \<lparr>images = [py ''/d/a.png'', py ''/d/b.png''],
      captions = [(py ''/d/a.png'', [py ''b'', py ''a'', py ''c'']), (py ''/d/b.png'', [py ''c''])],
      tag_frequency = [py ''a'' \<mapsto> 1, py ''b'' \<mapsto> 1, py ''c'' \<mapsto> 2],
      selected_images = [],
      all_tags = {py ''a'', py ''b'', py ''c''},
      filtered_images = [],
      filter_active = False,
      filter_mode = Inclusive,
      focus_image_path = Some (py ''/d/a.png''),
      include_subdirs_checkbox = True,
      disk = [(py ''/d/a.png'', []), (py ''/d/a.txt'', py ''b, a, c''),
              (py ''/d/b.png'', []), (py ''/d/b.txt'', py ''c'')],
      locked = {}\<rparr>"

text \<open>
  A freshly started application, and two directories on its disk: \<open>/d\<close> lists
  \<open>b.png\<close>, \<open>notes.txt\<close>, \<open>a.PNG\<close> (with the caption \<open>x, y\<close>) in this order and has a
  subdirectory \<open>sub\<close> with \<open>c.jpg\<close>; \<open>/e\<close> holds \<open>z.gif\<close> only.
\<close>

definition session_fresh :: app where
  "session_fresh =
     \<lparr>images = [], captions = [], tag_frequency = Map.empty, selected_images = [],
      all_tags = {}, filtered_images = [], filter_active = False, filter_mode = Inclusive,
      focus_image_path = None, include_subdirs_checkbox = True,
      disk = [(py ''/d/b.png'', []), (py ''/d/notes.txt'', py ''hello''),
              (py ''/d/a.PNG'', []), (py ''/d/a.txt'', py ''x, y''),
              (py ''/d/sub/c.jpg'', []), (py ''/e/z.gif'', [])],
      locked = {}\<rparr>"


definition tree_e :: dir_tree where
  "tree_e = Dir [py ''z.gif''] []"

section \<open>Tag editing keeps the tag index consistent\<close>

lemma count_pos:
  "map_of al k = Some old \<Longrightarrow> t \<in> set old \<Longrightarrow> 0 < count_images t al"
  unfolding count_images_def by (induction al) (auto split: if_splits)

lemma count_update:
  "count_images t (AList.update k v al) =
     (case map_of al k of
        None \<Rightarrow> count_images t al + (if t \<in> set v then 1 else 0)
      | Some old \<Rightarrow> count_images t al - (if t \<in> set old then 1 else 0)
           + (if t \<in> set v then 1 else 0))"
proof (induction al)
  case Nil
  then show ?case by (simp add: count_images_def)
next
  case (Cons a al)
  then show ?case
    using count_pos [of al k _ t]
    by (cases a) (auto simp: count_images_def split: option.splits)
qed

lemma list_all_update:
  "list_all (\<lambda>(p, tags). distinct tags) al \<Longrightarrow> distinct v \<Longrightarrow>
   list_all (\<lambda>(p, tags). distinct tags) (AList.update k v al)"
  by (induction al) auto


lemma save_fields [simp]:
  "images (save_caption_file p s) = images s"
  "captions (save_caption_file p s) = captions s"
  "tag_frequency (save_caption_file p s) = tag_frequency s"
  "selected_images (save_caption_file p s) = selected_images s"
  "all_tags (save_caption_file p s) = all_tags s"
  "filtered_images (save_caption_file p s) = filtered_images s"
  "filter_active (save_caption_file p s) = filter_active s"
  "filter_mode (save_caption_file p s) = filter_mode s"
  "focus_image_path (save_caption_file p s) = focus_image_path s"
  "locked (save_caption_file p s) = locked s"
  by (simp_all add: save_caption_file_def Let_def)




lemma update_tag_list_ok: "tag_index_ok s \<Longrightarrow> update_tag_list s = s"
proof -
  assume a: "tag_index_ok s"
  have at: "all_tags s = dom (tag_frequency s)" using a by (simp add: tag_index_ok_def)
  have "(\<lambda>t. if t \<in> all_tags s \<and> tag_frequency s t = None then Some 0
              else tag_frequency s t) = tag_frequency s"
    by (rule ext) (auto simp: at)
  then show ?thesis by (simp add: update_tag_list_def)
qed

lemma tag_index_ok_focus [simp]:
  "tag_index_ok (update_focus_window p s) = tag_index_ok s"
  by (simp add: tag_index_ok_def freq_ok_def tag_count_def update_focus_window_def)

lemma tag_index_ok_selected [simp]:
  "tag_index_ok (s\<lparr>selected_images := sel\<rparr>) = tag_index_ok s"
  by (simp add: tag_index_ok_def freq_ok_def tag_count_def)








lemmas tag_edit_defs =
  run_def add_tag_to_selected_def add_tag_image_def remove_tag_from_selected_def
  remove_tag_image_def strip_def is_space_def update_tag_list_def update_focus_window_def
  save_caption_file_def captions_get_def freq_get_def freq_touch_def splitext_def
  rsplit_at_def image_clicked_def Let_def

section \<open>Tag editing leaves the filtered view alone\<close>

lemma add_tag_image_frame [simp]:
  "filter_active (add_tag_image t p s) = filter_active s"
  "filtered_images (add_tag_image t p s) = filtered_images s"
  "images (add_tag_image t p s) = images s"
  "selected_images (add_tag_image t p s) = selected_images s"
  by (simp_all add: add_tag_image_def)

lemma remove_tag_image_frame [simp]:
  "filter_active (remove_tag_image t p s) = filter_active s"
  "filtered_images (remove_tag_image t p s) = filtered_images s"
  "images (remove_tag_image t p s) = images s"
  "selected_images (remove_tag_image t p s) = selected_images s"
  by (simp_all add: remove_tag_image_def Let_def freq_touch_def split: option.splits)

lemma fold_frame:
  "(\<And>x s. g (f x s) = g s) \<Longrightarrow> g (fold f xs s) = g s"
  by (induction xs arbitrary: s) auto

lemma update_frame [simp]:
  "filter_active (update_tag_list s) = filter_active s"
  "filtered_images (update_tag_list s) = filtered_images s"
  "images (update_tag_list s) = images s"
  "selected_images (update_tag_list s) = selected_images s"
  "captions (update_tag_list s) = captions s"
  "all_tags (update_tag_list s) = all_tags s"
  "disk (update_tag_list s) = disk s"
  "filter_active (update_focus_window p s) = filter_active s"
  "filtered_images (update_focus_window p s) = filtered_images s"
  "images (update_focus_window p s) = images s"
  "selected_images (update_focus_window p s) = selected_images s"
  "captions (update_focus_window p s) = captions s"
  "all_tags (update_focus_window p s) = all_tags s"
  "tag_frequency (update_focus_window p s) = tag_frequency s"
  "disk (update_focus_window p s) = disk s"
  by (simp_all add: update_tag_list_def update_focus_window_def)

text \<open>
  Claim C10.  \<open>add_tag_to_selected\<close> and \<open>remove_tag_from_selected\<close> do not recompute
  the filtered view: \<open>filter_active\<close>, the \<open>filtered_images\<close> sequence and with them
  the active view are what they were before the call, whatever the new captions are.
\<close>

theorem tag_edit_keeps_filtered_view:
  "filter_active (add_tag_to_selected text s) = filter_active s \<and>
   filtered_images (add_tag_to_selected text s) = filtered_images s \<and>
   active_view (add_tag_to_selected text s) = active_view s \<and>
   filter_active (remove_tag_from_selected text s) = filter_active s \<and>
   filtered_images (remove_tag_from_selected text s) = filtered_images s \<and>
   active_view (remove_tag_from_selected text s) = active_view s"
  by (simp add: add_tag_to_selected_def remove_tag_from_selected_def Let_def active_view_def
      fold_frame)

theorem tag_edit_keeps_filtered_view_witness:
  "filtered_images (remove_tag_from_selected (py ''x'') session_filtered) = [py ''/d/a.png''] \<and>
   filter_active (remove_tag_from_selected (py ''x'') session_filtered) \<and>
   captions_get (remove_tag_from_selected (py ''x'') session_filtered) (py ''/d/a.png'') = []"
proof -
  have "captions_get (remove_tag_from_selected (py ''x'') session_filtered) (py ''/d/a.png'')
      = []"
    by (simp add: tag_edit_defs session_filtered_def session_ab_def)
  moreover have "filtered_images session_filtered = [py ''/d/a.png'']"
    "filter_active session_filtered"
    by (simp_all add: session_filtered_def)
  ultimately show ?thesis
    using tag_edit_keeps_filtered_view [of "py ''x''" session_filtered] by simp
qed

section \<open>Filtering\<close>

lemma populate_gallery_fields [simp]:
  "filter_active (populate_gallery shown s) = filter_active s"
  "filtered_images (populate_gallery shown s) = filtered_images s"
  "images (populate_gallery shown s) = images s"
  "selected_images (populate_gallery shown s) = selected_images s"
  "captions (populate_gallery shown s) = captions s"
  "all_tags (populate_gallery shown s) = all_tags s"
  "disk (populate_gallery shown s) = disk s"
  by (simp_all add: populate_gallery_def)

lemma list_ex_inter: "list_ex (\<lambda>tag. tag \<in> A) ts \<longleftrightarrow> A \<inter> set ts \<noteq> {}"
  by (auto simp: list_ex_iff)

lemma list_all_subset: "list_all (\<lambda>tag. tag \<in> A) ts \<longleftrightarrow> set ts \<subseteq> A"
  by (auto simp: list_all_iff)

text \<open>
  Claim C3, as the code has it.  With at least one tag chosen, the filtered sequence is
  the catalog restricted (in catalog order) to the images whose caption shares a tag with
  the chosen ones in mode Inclusive, to those whose caption contains every chosen tag in
  mode Exclusive, and, for \<open>ignore_tags\<close>, to those whose caption shares no tag with the
  chosen ones; the filter is then active.  With no tag chosen both operations return at
  once and change nothing.
\<close>

theorem filter_retains_exactly:
  "(selected_tags \<noteq> [] \<and> filter_mode s = Inclusive \<longrightarrow>
      filtered_images (filter_images selected_tags s) =
        filter (\<lambda>p. set (captions_get s p) \<inter> set selected_tags \<noteq> {}) (images s) \<and>
      filter_active (filter_images selected_tags s)) \<and>
   (selected_tags \<noteq> [] \<and> filter_mode s = Exclusive \<longrightarrow>
      filtered_images (filter_images selected_tags s) =
        filter (\<lambda>p. set selected_tags \<subseteq> set (captions_get s p)) (images s) \<and>
      filter_active (filter_images selected_tags s)) \<and>
   (selected_tags \<noteq> [] \<longrightarrow>
      filtered_images (ignore_tags selected_tags s) =
        filter (\<lambda>p. set (captions_get s p) \<inter> set selected_tags = {}) (images s) \<and>
      filter_active (ignore_tags selected_tags s)) \<and>
   filter_images [] s = s \<and> ignore_tags [] s = s"
  by (simp add: filter_images_def ignore_tags_def Let_def list_ex_inter list_all_subset)

theorem filter_retains_exactly_witness:
  "filtered_images (filter_images [py ''x''] session_ab) = [py ''/d/a.png''] \<and>
   filtered_images (filter_images [py ''x''] (toggle_filter_mode True session_ab))
     = [py ''/d/a.png''] \<and>
   filtered_images (ignore_tags [py ''x''] session_ab) = [py ''/d/b.png''] \<and>
   filter_active (filter_images [py ''x''] session_ab)"
proof -
  have m: "filter_mode session_ab = Inclusive"
    "filter_mode (toggle_filter_mode True session_ab) = Exclusive"
    by (simp_all add: session_ab_def toggle_filter_mode_def)
  have ne: "[py ''x''] \<noteq> []" by simp
  show ?thesis
    using filter_retains_exactly [of "[py ''x'']" session_ab]
      filter_retains_exactly [of "[py ''x'']" "toggle_filter_mode True session_ab"] m ne
    by (simp add: session_ab_def toggle_filter_mode_def captions_get_def)
qed

text \<open>
  In mode Exclusive with no tag chosen, the caption of \<open>b.png\<close> is a superset of the
  (empty) chosen tag set, so the claim retains it; the early return leaves the earlier
  filtered view in place, which does not show it.
\<close>

theorem filter_empty_choice_counterexample:
  "filter_mode (toggle_filter_mode True session_filtered) = Exclusive \<and>
   py ''/d/b.png'' \<in> set (images (toggle_filter_mode True session_filtered)) \<and>
   set [] \<subseteq> set (captions_get (toggle_filter_mode True session_filtered) (py ''/d/b.png'')) \<and>
   py ''/d/b.png''
     \<notin> set (filtered_images (filter_images [] (toggle_filter_mode True session_filtered))) \<and>
   py ''/d/b.png''
     \<notin> set (active_view (filter_images [] (toggle_filter_mode True session_filtered)))"
  by (simp add: filter_images_def toggle_filter_mode_def active_view_def session_filtered_def
      session_ab_def)

section \<open>Moving and copying: effect on the session\<close>

lemma freq_ok_disk [simp]: "freq_ok (s\<lparr>disk := dk\<rparr>) = freq_ok s"
  by (simp add: freq_ok_def tag_count_def)








subsection \<open>Forgetting a moved image\<close>



lemma drop_tag_fields [simp]:
  "images (drop_tag t s) = images s"
  "captions (drop_tag t s) = captions s"
  "all_tags (drop_tag t s) = all_tags s"
  "selected_images (drop_tag t s) = selected_images s"
  "disk (drop_tag t s) = disk s"
  by (simp_all add: drop_tag_def Let_def freq_touch_def split: option.splits)



lemma fold_drop_tag_fields [simp]:
  "images (fold drop_tag xs s) = images s"
  "captions (fold drop_tag xs s) = captions s"
  "all_tags (fold drop_tag xs s) = all_tags s"
  "selected_images (fold drop_tag xs s) = selected_images s"
  "disk (fold drop_tag xs s) = disk s"
  by (induction xs arbitrary: s) simp_all






lemma freq_ok_cong:
  "captions a = captions b \<Longrightarrow> tag_frequency a = tag_frequency b \<Longrightarrow> freq_ok a = freq_ok b"
  by (simp add: freq_ok_def tag_count_def)







section \<open>The selection and the active view\<close>

lemma update_gallery_fields [simp]:
  "selected_images (update_gallery s) = selected_images s"
  "filter_active (update_gallery s) = filter_active s"
  "filtered_images (update_gallery s) = filtered_images s"
  "images (update_gallery s) = images s"
  by (simp_all add: update_gallery_def)

lemma active_view_selection_ops [simp]:
  "active_view (select_all_images s) = active_view s"
  "active_view (deselect_all_images s) = active_view s"
  "active_view (invert_selection s) = active_view s"
  "active_view (image_clicked p s) = active_view s"
  by (simp_all add: active_view_def select_all_images_def deselect_all_images_def
      invert_selection_def image_clicked_def Let_def)

lemma invert_selection_set:
  "set (selected_images (invert_selection s)) =
     (set (active_view s) - set (selected_images s)) \<union>
     (set (selected_images s) - set (active_view s))"
  by (auto simp: invert_selection_def symmetric_difference_def active_view_def Let_def)

lemma move_selection_clears:
  "selected_images s \<noteq> [] \<Longrightarrow> dest_dir \<noteq> [] \<Longrightarrow>
   selected_images (move_selection dest_dir s) = []"
  by (simp add: move_selection_def Let_def split: prod.splits)

text \<open>
  Claim C8, as the code has it.  The selection buttons leave the active view as it is.
  \<open>select_all_images\<close> makes the selection the set of images of the active view and
  \<open>deselect_all_images\<close> empties it.  \<open>invert_selection\<close> yields the symmetric
  difference of the active view and the old selection: it stays inside the active view
  when the old selection was inside, and keeps every selected image that the view does
  not show.  Clicking a shown image keeps a selection that was inside the view inside it.
  A move that goes ahead empties the selection, so no moved image is selected afterwards.
\<close>

theorem selection_and_active_view:
  "active_view (select_all_images s) = active_view s \<and>
   set (selected_images (select_all_images s)) = set (active_view s) \<and>
   selected_images (deselect_all_images s) = [] \<and>
   active_view (invert_selection s) = active_view s \<and>
   set (selected_images (invert_selection s)) =
     (set (active_view s) - set (selected_images s)) \<union>
     (set (selected_images s) - set (active_view s)) \<and>
   (set (selected_images s) \<subseteq> set (active_view s) \<longrightarrow>
      set (selected_images (invert_selection s)) \<subseteq> set (active_view s)) \<and>
   (set (selected_images s) \<subseteq> set (active_view s) \<and> p \<in> set (active_view s) \<longrightarrow>
      set (selected_images (image_clicked p s)) \<subseteq> set (active_view (image_clicked p s))) \<and>
   (selected_images s \<noteq> [] \<and> dest_dir \<noteq> [] \<longrightarrow>
      selected_images (move_selection dest_dir s) = [])"
proof -
  have "set (selected_images (select_all_images s)) = set (active_view s)"
    by (simp add: select_all_images_def active_view_def)
  moreover have "selected_images (deselect_all_images s) = []"
    by (simp add: deselect_all_images_def)
  moreover have "set (selected_images s) \<subseteq> set (active_view s) \<and> p \<in> set (active_view s) \<longrightarrow>
      set (selected_images (image_clicked p s)) \<subseteq> set (active_view (image_clicked p s))"
    by (auto simp: image_clicked_def update_focus_window_def active_view_def)
  ultimately show ?thesis
    using invert_selection_set [of s] move_selection_clears [of s dest_dir] by auto
qed

theorem selection_and_active_view_witness:
  "set (selected_images session_filtered) \<subseteq> set (active_view session_filtered) \<and>
   selected_images (invert_selection session_filtered) = [] \<and>
   set (selected_images (select_all_images session_filtered)) = {py ''/d/a.png''} \<and>
   set (selected_images (image_clicked (py ''/d/a.png'') session_filtered))
     \<subseteq> set (active_view (image_clicked (py ''/d/a.png'') session_filtered)) \<and>
   selected_images (move_selection (py ''/out'') session_filtered) = []"
proof -
  have h: "set (selected_images session_filtered) \<subseteq> set (active_view session_filtered)"
    "py ''/d/a.png'' \<in> set (active_view session_filtered)"
    "selected_images session_filtered \<noteq> []" "py ''/out'' \<noteq> []"
    by (simp_all add: session_filtered_def active_view_def)
  have v: "active_view session_filtered = [py ''/d/a.png'']"
    "selected_images session_filtered = [py ''/d/a.png'']"
    by (simp_all add: session_filtered_def active_view_def)
  show ?thesis
    using selection_and_active_view [of session_filtered "py ''/d/a.png''" "py ''/out''"] h v
    by simp
qed

text \<open>
  A selection made before a filter is applied survives the filter, and inverting keeps
  the selected image that the filtered view does not show.
\<close>

theorem selection_outside_view_counterexample:
  "\<not> set (selected_images (invert_selection (filter_images [py ''x''] session_ab)))
      \<subseteq> set (active_view (invert_selection (filter_images [py ''x''] session_ab)))"
  by (simp add: invert_selection_def filter_images_def symmetric_difference_def
      active_view_def update_gallery_def populate_gallery_def update_tag_list_def Let_def
      captions_get_def session_ab_def)


section \<open>The tag index after any sequence of tag edits\<close>









lemma update_gallery_captions [simp]: "captions (update_gallery s) = captions s"
  by (simp add: update_gallery_def)







section \<open>Destination names\<close>



















section \<open>Loading\<close>

lemma fold_count_tag_fields [simp]:
  "captions (fold count_tag tags s) = captions s"
  "images (fold count_tag tags s) = images s"
  "disk (fold count_tag tags s) = disk s"
  by (induction tags arbitrary: s) (simp_all add: count_tag_def)

lemma load_file_result:
  "fst (load_file root file (loaded, s)) =
     loaded @ (if is_image_file file then [path_join root file] else []) \<and>
   fst ` set (captions (snd (load_file root file (loaded, s)))) =
     fst ` set (captions s) \<union> (if is_image_file file then {path_join root file} else {}) \<and>
   disk (snd (load_file root file (loaded, s))) = disk s"
  by (simp add: load_file_def Let_def dom_update)

lemma fold_load_file_result:
  "fst (fold (load_file root) files (loaded, s)) =
     loaded @ map (path_join root) (filter is_image_file files) \<and>
   fst ` set (captions (snd (fold (load_file root) files (loaded, s)))) =
     fst ` set (captions s) \<union> path_join root ` {f \<in> set files. is_image_file f} \<and>
   disk (snd (fold (load_file root) files (loaded, s))) = disk s"
proof (induction files arbitrary: loaded s)
  case Nil
  then show ?case by simp
next
  case (Cons f files)
  obtain l1 s1 where a: "load_file root f (loaded, s) = (l1, s1)" by (cases "load_file root f (loaded, s)")
  note r = load_file_result [of root f loaded s, unfolded a]
  show ?case using Cons [of l1 s1] r by (auto simp: a)
qed

lemma fold_walk_result:
  "fst (fold (\<lambda>(root, files) acc. fold (load_file root) files acc) ws (loaded, s)) =
     loaded @ concat (map (\<lambda>(root, files). map (path_join root) (filter is_image_file files)) ws) \<and>
   fst ` set (captions (snd (fold (\<lambda>(root, files) acc. fold (load_file root) files acc) ws
       (loaded, s)))) =
     fst ` set (captions s) \<union>
       set (concat (map (\<lambda>(root, files). map (path_join root) (filter is_image_file files)) ws))"
proof (induction ws arbitrary: loaded s)
  case Nil
  then show ?case by simp
next
  case (Cons w ws)
  obtain root files where w: "w = (root, files)" by (cases w)
  obtain l1 s1 where a: "fold (load_file root) files (loaded, s) = (l1, s1)"
    by (cases "fold (load_file root) files (loaded, s)")
  note r = fold_load_file_result [of root files loaded s, unfolded a]
  show ?case using Cons [of l1 s1] r by (auto simp: a w)
qed




lemmas load_defs =
  load_images_thread_def load_images_def load_file_def is_image_file_def image_extensions_def
  ends_with_def lower_def path_join_def splitext_def rsplit_at_def path_exists_def
  read_caption_file_def parse_caption_def strip_def is_space_def count_tag_def freq_get_def
  run_worker_def populate_gallery_def update_tag_list_def Let_def



section \<open>Overlapping loads\<close>





section \<open>A load sets up the tag index\<close>


lemma fold_count_tag_freq:
  "distinct xs \<Longrightarrow>
   tag_frequency (fold count_tag xs s) t =
     (if t \<in> set xs then Some (freq_get s t + 1) else tag_frequency s t) \<and>
   all_tags (fold count_tag xs s) = all_tags s \<union> set xs"
proof (induction xs arbitrary: s)
  case Nil
  then show ?case by simp
next
  case (Cons x xs)
  have "tag_frequency (count_tag x s) t = (if t = x then Some (freq_get s x + 1) else tag_frequency s t)"
    "all_tags (count_tag x s) = insert x (all_tags s)"
    "t \<noteq> x \<Longrightarrow> freq_get (count_tag x s) t = freq_get s t"
    by (simp_all add: count_tag_def freq_get_def)
  then show ?case using Cons.IH [of "count_tag x s"] Cons.prems by auto
qed

lemma read_caption_file_disk:
  "disk s' = disk s \<Longrightarrow> read_caption_file p s' = read_caption_file p s"
  by (simp add: read_caption_file_def)

lemma load_file_ok:
  assumes "loading_ok (loaded, s)"
    and "is_image_file file \<longrightarrow> path_join root file \<notin> set loaded \<and>
           distinct (read_caption_file (path_join root file) s)"
  shows "loading_ok (load_file root file (loaded, s))"
proof (cases "is_image_file file")
  case False
  then show ?thesis using assms(1) by (simp add: load_file_def)
next
  case True
  let ?p = "path_join root file"
  define tags where "tags = (if path_exists s (fst (splitext ?p) @ py ''.txt'')
      then read_caption_file ?p s else [])"
  let ?s1 = "s\<lparr>captions := AList.update ?p tags (captions s)\<rparr>"
  have eq: "load_file root file (loaded, s) = (loaded @ [?p], fold count_tag tags ?s1)"
    using True by (simp add: load_file_def Let_def tags_def)
  have d: "distinct tags" using assms(2) True by (simp add: tags_def)
  have ok: "tag_index_ok s" and keys: "fst ` set (captions s) = set loaded"
    using assms(1) by (simp_all add: loading_ok_def)
  have new: "map_of (captions s) ?p = None"
    using assms(2) True keys by (simp add: map_of_eq_None_iff)
  have cnt: "count_images t (AList.update ?p tags (captions s))
      = count_images t (captions s) + (if t \<in> set tags then 1 else 0)" for t
    by (simp add: count_update new)
  have fr: "tag_frequency s t =
      (if count_images t (captions s) = 0 then None
       else Some (int (count_images t (captions s))))" for t
    using ok by (simp add: tag_index_ok_def freq_ok_def tag_count_def)
  have fg: "freq_get ?s1 t = int (count_images t (captions s))" for t
    by (simp add: freq_get_def fr)
  note f = fold_count_tag_freq [OF d, of ?s1]
  have at: "all_tags s = dom (tag_frequency s)" using ok by (simp add: tag_index_ok_def)
  have "tag_index_ok (fold count_tag tags ?s1)"
    unfolding tag_index_ok_def freq_ok_def
  proof (intro conjI allI)
    show "distinct (map fst (captions (fold count_tag tags ?s1)))"
      using ok by (simp add: tag_index_ok_def freq_ok_def distinct_update)
    show "list_all (\<lambda>(p, tags). distinct tags) (captions (fold count_tag tags ?s1))"
      using ok d by (simp add: tag_index_ok_def freq_ok_def list_all_update)
    show "tag_frequency (fold count_tag tags ?s1) t =
        (if tag_count (fold count_tag tags ?s1) t = 0 then None
         else Some (int (tag_count (fold count_tag tags ?s1) t)))" for t
      using f [of t] by (simp add: tag_count_def cnt fg fr)
    show "all_tags (fold count_tag tags ?s1) = dom (tag_frequency (fold count_tag tags ?s1))"
    proof -
      have "dom (tag_frequency (fold count_tag tags ?s1)) = dom (tag_frequency s) \<union> set tags"
        using f by (auto simp: dom_def split: if_splits)
      then show ?thesis using f at by simp
    qed
  qed
  moreover have "fst ` set (captions (fold count_tag tags ?s1)) = set (loaded @ [?p])"
    using keys by (simp add: dom_update)
  ultimately show ?thesis by (simp add: eq loading_ok_def)
qed


lemma fold_count_tag_frame [simp]:
  "selected_images (fold count_tag tags s) = selected_images s"
  "filtered_images (fold count_tag tags s) = filtered_images s"
  by (induction tags arbitrary: s) (simp_all add: count_tag_def)

lemma load_file_frame:
  "selected_images (snd (load_file root file (loaded, s))) = selected_images s \<and>
   filtered_images (snd (load_file root file (loaded, s))) = filtered_images s"
  by (simp add: load_file_def Let_def)

lemma fold_load_file_ok:
  assumes "loading_ok (loaded, s)"
    and "distinct (loaded @ map (path_join root) (filter is_image_file files))"
    and "\<And>p. p \<in> set (map (path_join root) (filter is_image_file files)) \<Longrightarrow>
           distinct (read_caption_file p s)"
  shows "loading_ok (fold (load_file root) files (loaded, s)) \<and>
         selected_images (snd (fold (load_file root) files (loaded, s))) = selected_images s \<and>
         filtered_images (snd (fold (load_file root) files (loaded, s))) = filtered_images s"
  using assms
proof (induction files arbitrary: loaded s)
  case Nil
  then show ?case by simp
next
  case (Cons f files)
  obtain l1 s1 where a: "load_file root f (loaded, s) = (l1, s1)"
    by (cases "load_file root f (loaded, s)")
  note r = load_file_result [of root f loaded s, unfolded a fst_conv snd_conv]
  note fr = load_file_frame [of root f loaded s, unfolded a snd_conv]
  have l1: "l1 = loaded @ (if is_image_file f then [path_join root f] else [])"
    and dk: "disk s1 = disk s" using r by simp_all
  have "is_image_file f \<longrightarrow> path_join root f \<notin> set loaded \<and>
      distinct (read_caption_file (path_join root f) s)"
    using Cons.prems(2,3) by auto
  then have ok1: "loading_ok (l1, s1)"
    using load_file_ok [OF Cons.prems(1), of f root] by (simp add: a)
  have d1: "distinct (l1 @ map (path_join root) (filter is_image_file files))"
    using Cons.prems(2) by (auto simp: l1)
  have c1: "\<And>p. p \<in> set (map (path_join root) (filter is_image_file files)) \<Longrightarrow>
      distinct (read_caption_file p s1)"
    using Cons.prems(3) read_caption_file_disk [OF dk] by auto
  show ?case using Cons.IH [OF ok1 d1 c1] fr by (simp add: a)
qed

lemma distinct_append3:
  "distinct (xs @ ys @ zs) \<Longrightarrow> distinct (xs @ ys) \<and> distinct ((xs @ ys) @ zs)"
  by auto

lemma fold_walk_ok:
  assumes "loading_ok (loaded, s)"
    and "distinct (loaded @
          concat (map (\<lambda>(root, files). map (path_join root) (filter is_image_file files)) ws))"
    and "\<And>p. p \<in> set (concat (map (\<lambda>(root, files).
              map (path_join root) (filter is_image_file files)) ws)) \<Longrightarrow>
           distinct (read_caption_file p s)"
  shows "loading_ok (fold (\<lambda>(root, files) acc. fold (load_file root) files acc) ws (loaded, s)) \<and>
         selected_images (snd (fold (\<lambda>(root, files) acc. fold (load_file root) files acc) ws
           (loaded, s))) = selected_images s \<and>
         filtered_images (snd (fold (\<lambda>(root, files) acc. fold (load_file root) files acc) ws
           (loaded, s))) = filtered_images s"
  using assms
proof (induction ws arbitrary: loaded s)
  case Nil
  then show ?case by simp
next
  case (Cons w ws)
  obtain root files where w: "w = (root, files)" by (cases w)
  obtain l1 s1 where a: "fold (load_file root) files (loaded, s) = (l1, s1)"
    by (cases "fold (load_file root) files (loaded, s)")
  note r = fold_load_file_result [of root files loaded s, unfolded a fst_conv snd_conv]
  have l1: "l1 = loaded @ map (path_join root) (filter is_image_file files)"
    and dk: "disk s1 = disk s" using r by simp_all
  have d3: "distinct (loaded @ map (path_join root) (filter is_image_file files) @
      concat (map (\<lambda>(root, files). map (path_join root) (filter is_image_file files)) ws))"
    using Cons.prems(2) by (simp add: w)
  have d0: "distinct (loaded @ map (path_join root) (filter is_image_file files))"
    using distinct_append3 [OF d3] by (rule conjunct1)
  have c0: "\<And>p. p \<in> set (map (path_join root) (filter is_image_file files)) \<Longrightarrow>
      distinct (read_caption_file p s)"
    using Cons.prems(3) by (simp add: w)
  note f = fold_load_file_ok [OF Cons.prems(1) d0 c0, unfolded a snd_conv]
  have d1: "distinct (l1 @
      concat (map (\<lambda>(root, files). map (path_join root) (filter is_image_file files)) ws))"
    unfolding l1 using distinct_append3 [OF d3] by (rule conjunct2)
  have c1: "\<And>p. p \<in> set (concat (map (\<lambda>(root, files).
      map (path_join root) (filter is_image_file files)) ws)) \<Longrightarrow>
      distinct (read_caption_file p s1)"
    using Cons.prems(3) read_caption_file_disk [OF dk] by (simp add: w)
  show ?case using Cons.IH [OF conjunct1 [OF f] d1 c1] f by (simp add: a w)
qed

text \<open>
  A load of a directory whose caption files repeat no tag leaves a consistent tag index
  and, when no filtered view of an earlier directory is left over, a well-formed catalog.
\<close>

lemma load_establishes_index:
  assumes "distinct (scan dir_path tree)"
    and "\<And>p. p \<in> set (scan dir_path tree) \<Longrightarrow> distinct (read_caption_file p s)"
  shows "tag_index_ok (run_worker dir_path tree (load_images s))"
    and "set (filtered_images s) \<subseteq> set (scan dir_path tree) \<Longrightarrow>
         catalog_ok (run_worker dir_path tree (load_images s))"
proof -
  let ?s0 = "load_images s"
  obtain l1 s1 where a: "fold (\<lambda>(root, files) acc. fold (load_file root) files acc)
      (walk dir_path tree) ([], ?s0) = (l1, s1)"
    by (cases "fold (\<lambda>(root, files) acc. fold (load_file root) files acc)
      (walk dir_path tree) ([], ?s0)")
  have l1: "l1 = scan dir_path tree"
    using fold_walk_result [of "walk dir_path tree" "[]" ?s0] by (simp add: a scan_def)
  have ok0: "loading_ok ([], ?s0)"
    by (simp add: loading_ok_def tag_index_ok_def freq_ok_def tag_count_def count_images_def
        load_images_def)
  have d: "distinct ([] @ concat (map (\<lambda>(root, files).
      map (path_join root) (filter is_image_file files)) (walk dir_path tree)))"
    using assms(1) by (simp add: scan_def)
  have c: "\<And>p. p \<in> set (concat (map (\<lambda>(root, files).
      map (path_join root) (filter is_image_file files)) (walk dir_path tree))) \<Longrightarrow>
      distinct (read_caption_file p ?s0)"
    using assms(2) read_caption_file_disk [of ?s0 s] by (simp add: scan_def load_images_def)
  note f = fold_walk_ok [OF ok0 d c, unfolded a snd_conv fst_conv]
  have thr: "load_images_thread dir_path tree ?s0 = s1\<lparr>images := l1\<rparr>"
    by (simp add: load_images_thread_def a)
  have "freq_ok (s1\<lparr>images := l1\<rparr>) = freq_ok s1" by (rule freq_ok_cong) simp_all
  then have ok: "tag_index_ok (s1\<lparr>images := l1\<rparr>)"
    using f by (simp add: loading_ok_def tag_index_ok_def)
  then have rw: "run_worker dir_path tree ?s0 = s1\<lparr>images := l1\<rparr>"
    by (simp add: run_worker_def thr Let_def populate_gallery_def update_tag_list_ok)
  show "tag_index_ok (run_worker dir_path tree (load_images s))" using ok by (simp add: rw)
  have sel: "selected_images s1 = []" "filtered_images s1 = filtered_images s"
    "fst ` set (captions s1) = set l1"
    using f by (simp_all add: load_images_def loading_ok_def)
  show "catalog_ok (run_worker dir_path tree (load_images s))"
    if "set (filtered_images s) \<subseteq> set (scan dir_path tree)"
    unfolding rw using that sel assms(1) by (simp add: catalog_ok_def l1)
qed

text \<open>
  The loader counts every occurrence of a tag: after loading one image whose caption
  file reads \<open>x, x\<close> the frequency of \<open>x\<close> is 2, with one image carrying it.
\<close>

lemma load_counts_occurrences:
  "tag_frequency (run_worker (py ''/e'') tree_e
      (load_images (session_fresh\<lparr>disk := [(py ''/e/z.gif'', []), (py ''/e/z.txt'', py ''x, x'')]\<rparr>)))
      (py ''x'') = Some 2 \<and>
   tag_count (run_worker (py ''/e'') tree_e
      (load_images (session_fresh\<lparr>disk := [(py ''/e/z.gif'', []), (py ''/e/z.txt'', py ''x, x'')]\<rparr>)))
      (py ''x'') = 1"
  by (simp add: load_defs tag_count_def count_images_def tree_e_def session_fresh_def)

section \<open>Writing a caption and reading it back\<close>




lemma dropWhile_shorter: "xs \<noteq> [] \<Longrightarrow> P (hd xs) \<Longrightarrow> length (dropWhile P xs) < length xs"
  by (cases xs) (auto simp: le_imp_less_Suc length_dropWhile_le)

lemma strip_fixed_ends:
  assumes "t \<noteq> []" "strip t = t"
  shows "\<not> is_space (hd t)" "\<not> is_space (last t)"
proof -
  have l1: "length (strip t) \<le> length (dropWhile is_space t)"
    using length_dropWhile_le [of is_space "rev (dropWhile is_space t)"]
    by (simp add: strip_def)
  show h: "\<not> is_space (hd t)"
  proof
    assume "is_space (hd t)"
    then have "length (dropWhile is_space t) < length t"
      using assms(1) by (rule dropWhile_shorter [rotated])
    then show False using l1 assms(2) by simp
  qed
  then have d: "dropWhile is_space t = t" using assms(1) by (cases t) auto
  show "\<not> is_space (last t)"
  proof
    assume "is_space (last t)"
    then have "is_space (hd (rev t))" using assms(1) by (simp add: hd_rev)
    then have "length (dropWhile is_space (rev t)) < length (rev t)"
      using assms(1) dropWhile_shorter [of "rev t" is_space] by simp
    then have "length (strip t) < length t" by (simp add: strip_def d)
    then show False using assms(2) by simp
  qed
qed






section \<open>Sorting the tags of the focused image\<close>

lemma captions_get_update:
  "captions_get (s\<lparr>captions := AList.update p v (captions s)\<rparr>) p = v"
  by (simp add: captions_get_def update_conv')

lemma sort_tags_step:
  assumes "p \<noteq> []" "fst (splitext p) @ py ''.txt'' \<notin> locked s"
  shows "captions_get (update_focus_window p
            (save_caption_file p (s\<lparr>captions := AList.update p v (captions s)\<rparr>))) p = v \<and>
         map_of (disk (update_focus_window p
            (save_caption_file p (s\<lparr>captions := AList.update p v (captions s)\<rparr>))))
            (fst (splitext p) @ py ''.txt'') = Some (join (py '', '') v) \<and>
         tag_frequency (update_focus_window p
            (save_caption_file p (s\<lparr>captions := AList.update p v (captions s)\<rparr>)))
            = tag_frequency s"
  using assms
  by (simp add: captions_get_def update_conv' save_caption_file_def Let_def)

text \<open>
  Claim C9, as the code has it.  Let the focused image have a caption entry and a
  writable caption file.  \<open>sort_tags_low\<close> replaces its caption by the same tags in
  ascending order of the key (frequency, tag).  \<open>sort_tags_high\<close> replaces it by the same
  tags in ascending order of the key (-frequency, tag): frequency descending, and tags of
  equal frequency in ascending (alphabetical) order.  Either way the caption file then
  holds the tags in the new order, joined by a comma and a space, and the frequencies are
  untouched.
\<close>

theorem sort_tags_orders_and_persists:
  assumes "focus_image_path s = Some p" "p \<noteq> []" "map_of (captions s) p = Some tags"
    and "fst (splitext p) @ py ''.txt'' \<notin> locked s"
  shows "captions_get (sort_tags_low s) p = sort_key (\<lambda>t. (freq_get s t, t)) tags \<and>
         sorted (map (\<lambda>t. (freq_get s t, t)) (captions_get (sort_tags_low s) p)) \<and>
         mset (captions_get (sort_tags_low s) p) = mset tags \<and>
         map_of (disk (sort_tags_low s)) (fst (splitext p) @ py ''.txt'')
           = Some (join (py '', '') (captions_get (sort_tags_low s) p)) \<and>
         tag_frequency (sort_tags_low s) = tag_frequency s \<and>
         captions_get (sort_tags_high s) p = sort_key (\<lambda>t. (- freq_get s t, t)) tags \<and>
         sorted (map (\<lambda>t. (- freq_get s t, t)) (captions_get (sort_tags_high s) p)) \<and>
         mset (captions_get (sort_tags_high s) p) = mset tags \<and>
         map_of (disk (sort_tags_high s)) (fst (splitext p) @ py ''.txt'')
           = Some (join (py '', '') (captions_get (sort_tags_high s) p)) \<and>
         tag_frequency (sort_tags_high s) = tag_frequency s"
proof -
  let ?lo = "sort_key (\<lambda>t. (freq_get s t, t)) tags"
  let ?hi = "sort_key (\<lambda>t. (- freq_get s t, t)) tags"
  have lo: "sort_tags_low s = update_focus_window p
      (save_caption_file p (s\<lparr>captions := AList.update p ?lo (captions s)\<rparr>))"
    using assms(1-3) by (simp add: sort_tags_low_def Let_def)
  have hi: "sort_tags_high s = update_focus_window p
      (save_caption_file p (s\<lparr>captions := AList.update p ?hi (captions s)\<rparr>))"
    using assms(1-3) by (simp add: sort_tags_high_def Let_def)
  note l = sort_tags_step [OF assms(2,4), of ?lo, folded lo]
  note h = sort_tags_step [OF assms(2,4), of ?hi, folded hi]
  have "sorted (map (\<lambda>t. (freq_get s t, t)) ?lo)" "sorted (map (\<lambda>t. (- freq_get s t, t)) ?hi)"
    by (rule sorted_sort_key)+
  moreover have "mset ?lo = mset tags" "mset ?hi = mset tags" by simp_all
  ultimately show ?thesis using l h by simp
qed

lemmas sort_defs =
  sort_tags_high_def sort_tags_low_def freq_get_def captions_get_def save_caption_file_def
  update_focus_window_def splitext_def rsplit_at_def Let_def

theorem sort_tags_orders_and_persists_witness:
  "focus_image_path session_sort = Some (py ''/d/a.png'') \<and>
   map_of (captions session_sort) (py ''/d/a.png'') = Some [py ''b'', py ''a'', py ''c''] \<and>
   fst (splitext (py ''/d/a.png'')) @ py ''.txt'' \<notin> locked session_sort \<and>
   captions_get (sort_tags_low session_sort) (py ''/d/a.png'') = [py ''a'', py ''b'', py ''c''] \<and>
   captions_get (sort_tags_high session_sort) (py ''/d/a.png'') = [py ''c'', py ''a'', py ''b''] \<and>
   map_of (disk (sort_tags_high session_sort)) (py ''/d/a.txt'') = Some (py ''c, a, b'')"
proof -
  have h: "focus_image_path session_sort = Some (py ''/d/a.png'')" "py ''/d/a.png'' \<noteq> []"
    "map_of (captions session_sort) (py ''/d/a.png'') = Some [py ''b'', py ''a'', py ''c'']"
    "fst (splitext (py ''/d/a.png'')) @ py ''.txt'' \<notin> locked session_sort"
    by (simp_all add: session_sort_def)
  have p: "fst (splitext (py ''/d/a.png'')) @ py ''.txt'' = py ''/d/a.txt''"
    by (simp add: splitext_def rsplit_at_def)
  have lo: "sort_key (\<lambda>t. (freq_get session_sort t, t)) [py ''b'', py ''a'', py ''c'']
      = [py ''a'', py ''b'', py ''c'']"
    by (simp add: freq_get_def session_sort_def)
  have hi: "sort_key (\<lambda>t. (- freq_get session_sort t, t)) [py ''b'', py ''a'', py ''c'']
      = [py ''c'', py ''a'', py ''b'']"
    by (simp add: freq_get_def session_sort_def)
  show ?thesis
    using sort_tags_orders_and_persists [OF h] h(1,3,4) unfolding lo hi p by simp
qed

text \<open>
  In descending order of the key (frequency, tag) no tag is followed by one of a greater
  key.  \<open>sort_tags_high\<close> puts \<open>a\<close> before \<open>b\<close>, both of frequency 1, although the
  key of \<open>a\<close> is the smaller one.
\<close>

theorem sort_high_ties_counterexample:
  "captions_get (sort_tags_high session_sort) (py ''/d/a.png'') = [py ''c'', py ''a'', py ''b''] \<and>
   (freq_get session_sort (py ''a''), py ''a'') < (freq_get session_sort (py ''b''), py ''b'')"
  by (simp add: sort_defs session_sort_def)

end
